theory Spec2Isabelle
  imports Main "HOL-Library.AList"
begin

section \<open>Values and documents\<close>

text \<open>
  The store of \<^verbatim>\<open>mlstorage_server/mldb.py\<close> keeps experiment documents in a MongoDB
  collection. A document is a Python dictionary from field names to values; it is
  modelled as an association list, read with \<open>map_of\<close>. Two dictionaries are equal in
  Python when they hold the same keys with the same values, which is equality of their
  \<open>map_of\<close>.
\<close>

type_synonym ObjectId = nat

datatype val =
    VNone
  | VBool bool
  | VInt int
  | VStr string
  | VDate int
  | VObjectId ObjectId
  | VList "val list"
  | VDict "(string \<times> val) list"

type_synonym doc = "(string \<times> val) list"

text \<open>\<^verbatim>\<open>dict(doc_fields or ())\<close>: a fresh dictionary, empty when the argument is None.\<close>

definition dict_or_empty :: "doc option \<Rightarrow> doc" where
  "dict_or_empty doc_fields = (case doc_fields of None \<Rightarrow> [] | Some d \<Rightarrow> d)"

text \<open>\<^verbatim>\<open>d[k] = v\<close> and \<^verbatim>\<open>d.pop(k, None)\<close>.\<close>

definition dict_set :: "string \<Rightarrow> val \<Rightarrow> doc \<Rightarrow> doc" where
  "dict_set k v d = AList.update k v d"

definition dict_pop :: "string \<Rightarrow> doc \<Rightarrow> doc" where
  "dict_pop k d = AList.delete k d"

section \<open>Identifier normalisation\<close>

definition pop_experiment_id :: "doc \<Rightarrow> doc" where
  "pop_experiment_id experiment_doc = dict_pop ''id'' (dict_pop ''_id'' experiment_doc)"

text \<open>The renaming of one dictionary; the source guards it by \<^verbatim>\<open>is not None\<close>.\<close>

definition rename_id_to_database :: "doc \<Rightarrow> doc" where
  "rename_id_to_database d =
     (case map_of d ''id'' of
        Some v \<Rightarrow> dict_set ''_id'' v (dict_pop ''id'' d)
      | None \<Rightarrow> d)"

definition rename_id_from_database :: "doc \<Rightarrow> doc" where
  "rename_id_from_database d =
     (case map_of d ''_id'' of
        Some v \<Rightarrow> dict_set ''id'' v (dict_pop ''_id'' d)
      | None \<Rightarrow> d)"

definition to_database_experiment_doc :: "doc option \<Rightarrow> doc option" where
  "to_database_experiment_doc experiment_doc =
     (case experiment_doc of
        None \<Rightarrow> None
      | Some d \<Rightarrow> Some (rename_id_to_database d))"

definition from_database_experiment_doc :: "doc option \<Rightarrow> doc option" where
  "from_database_experiment_doc experiment_doc =
     (case experiment_doc of
        None \<Rightarrow> None
      | Some d \<Rightarrow> Some (rename_id_from_database d))"

section \<open>The document database\<close>

text \<open>
  The collection is the list of its documents in natural (insertion) order. The
  operations below are the ones the store issues against the collection: a query filter
  is a dictionary whose entries all have to hold; an entry is a literal equality on the
  field, or the operator dictionary \<^verbatim>\<open>{'$ne': x}\<close>, which holds when the field is
  missing or differs from \<open>x\<close>.
\<close>

datatype error =
    ValidationError
  | InvalidIdentifier
  | KeyError
  | ValueError
  | DuplicateKeyError
  | WriteError

definition cond_holds :: "val \<Rightarrow> val option \<Rightarrow> bool" where
  "cond_holds c fld =
     (case c of
        VDict [(k, x)] \<Rightarrow> if k = ''$ne'' then fld \<noteq> Some x else fld = Some c
      | _ \<Rightarrow> fld = Some c)"

definition matches :: "doc \<Rightarrow> doc \<Rightarrow> bool" where
  "matches flt d = list_all (\<lambda>(k, c). cond_holds c (map_of d k)) flt"




text \<open>
  \<^verbatim>\<open>update_one(filter, {'$set': fields})\<close> changes the first matching document and
  reports how many documents matched (0 or 1). The key of a document is immutable: a
  \<^verbatim>\<open>$set\<close> that would change it is a write error.
\<close>

definition changes_id :: "doc \<Rightarrow> doc \<Rightarrow> bool" where
  "changes_id fields d =
     (map_of fields ''_id'' \<noteq> None \<and> map_of fields ''_id'' \<noteq> map_of d ''_id'')"

fun update_one :: "doc \<Rightarrow> doc \<Rightarrow> doc list \<Rightarrow> error + (nat \<times> doc list)" where
  "update_one flt fields [] = Inr (0, [])"
| "update_one flt fields (d # ds) =
     (if matches flt d then
        (if changes_id fields d then Inl WriteError
         else Inr (1, AList.merge d fields # ds))
      else
        (case update_one flt fields ds of
           Inl e \<Rightarrow> Inl e
         | Inr (n, ds') \<Rightarrow> Inr (n, d # ds')))"

text \<open>
  \<^verbatim>\<open>insert_one(doc)\<close>: the driver gives the document a new ObjectId when it has no
  key; the collection refuses a key that is already present.
\<close>

definition insert_one :: "ObjectId \<Rightarrow> doc \<Rightarrow> doc list \<Rightarrow> error + (val \<times> doc list)" where
  "insert_one fresh d coll =
     (let d' = (if map_of d ''_id'' = None then dict_set ''_id'' (VObjectId fresh) d else d)
      in case map_of d' ''_id'' of
           None \<Rightarrow> Inl KeyError
         | Some i \<Rightarrow>
             if list_ex (\<lambda>e. map_of e ''_id'' = Some i) coll then Inl DuplicateKeyError
             else Inr (i, coll @ [d']))"

text \<open>\<^verbatim>\<open>delete_one(filter)\<close> removes the first matching document.\<close>

fun delete_one :: "doc \<Rightarrow> doc list \<Rightarrow> nat \<times> doc list" where
  "delete_one flt [] = (0, [])"
| "delete_one flt (d # ds) =
     (if matches flt d then (1, ds)
      else (case delete_one flt ds of (n, ds') \<Rightarrow> (n, d # ds')))"

text \<open>
  Sorting. The database compares field values (a missing field included) in an order
  of its own; \<open>ord\<close> maps a field value into a linear order that stands for it. A sort
  specification is a list of field names with directions, the first the most
  significant.
\<close>

datatype direction = ASCENDING | DESCENDING

definition sort_on :: "(val option \<Rightarrow> 'o::linorder) \<Rightarrow> string \<times> direction \<Rightarrow> doc list \<Rightarrow> doc list" where
  "sort_on ord spec ds =
     (case spec of
        (fld, ASCENDING) \<Rightarrow> sort_key (\<lambda>d. ord (map_of d fld)) ds
      | (fld, DESCENDING) \<Rightarrow> rev (sort_key (\<lambda>d. ord (map_of d fld)) (rev ds)))"

definition sort_docs :: "(val option \<Rightarrow> 'o::linorder) \<Rightarrow> (string \<times> direction) list \<Rightarrow> doc list \<Rightarrow> doc list" where
  "sort_docs ord sort_by ds = foldr (sort_on ord) sort_by ds"

definition find_sorted :: "(val option \<Rightarrow> 'o::linorder) \<Rightarrow> doc \<Rightarrow> (string \<times> direction) list \<Rightarrow> doc list \<Rightarrow> doc list" where
  "find_sorted ord flt sort_by coll = sort_docs ord sort_by (filter (matches flt) coll)"

section \<open>The store\<close>

text \<open>
  The module \<^verbatim>\<open>mlstorage_server.schema\<close> is not among the sources. Its two validators
  are parameters of the model: each returns the shaped value, or nothing when it
  rejects its argument (the caller then sees the validator's exception).
\<close>

record schema =
  validate_experiment_id :: "val \<Rightarrow> ObjectId option"
  validate_experiment_doc :: "doc \<Rightarrow> doc option"

text \<open>
  The state of an \<^verbatim>\<open>MLDB\<close> object: the documents and the index key specifications of
  its collection, and the flag \<^verbatim>\<open>_indexes_ensured\<close>. An operation returns its result,
  or the exception it raises, together with the state it leaves behind.
\<close>

record mldb =
  collection :: "doc list"
  index_information :: "(string \<times> direction) list list"
  indexes_ensured :: bool

definition ensure_mongo_indexes ::
  "(string \<times> direction) list list \<Rightarrow> (string \<times> direction) list list \<Rightarrow> (string \<times> direction) list list" where
  "ensure_mongo_indexes information indexes =
     (if indexes \<noteq> [] then
        (let index_models = filter (\<lambda>index_to_create. index_to_create \<notin> set information) indexes
         in if index_models \<noteq> [] then information @ index_models else information)
      else information)"

definition required_indexes :: "(string \<times> direction) list list" where
  "required_indexes =
     [[(''parent_id'', ASCENDING)], [(''name'', ASCENDING)], [(''tags'', ASCENDING)],
      [(''status'', ASCENDING)], [(''fingerprint'', ASCENDING)], [(''args'', ASCENDING)],
      [(''deleted'', ASCENDING)], [(''start_time'', DESCENDING)],
      [(''stop_time'', DESCENDING)], [(''heartbeat'', DESCENDING)]]"

definition ensure_indexes :: "mldb \<Rightarrow> mldb" where
  "ensure_indexes s =
     (if \<not> indexes_ensured s then
        s\<lparr>index_information := ensure_mongo_indexes (index_information s) required_indexes,
          indexes_ensured := True\<rparr>
      else s)"

definition not_deleted :: "string \<times> val" where
  "not_deleted = (''deleted'', VDict [(''$ne'', VBool True)])"


text \<open>
  \<open>now\<close> is the value of \<^verbatim>\<open>datetime.utcnow()\<close> at the call, \<open>fresh\<close> the ObjectId the
  driver generates for a document without a key.
\<close>

definition create :: "schema \<Rightarrow> val \<Rightarrow> ObjectId \<Rightarrow> string \<Rightarrow> doc option \<Rightarrow> mldb \<Rightarrow> (error + val) \<times> mldb" where
  "create S now fresh name doc_fields s =
     (case validate_experiment_doc S (pop_experiment_id (dict_or_empty doc_fields)) of
        None \<Rightarrow> (Inl ValidationError, s)
      | Some d0 \<Rightarrow>
          (let d1 = dict_set ''name'' (VStr name) d0;
               d2 = (if map_of d1 ''start_time'' = None then dict_set ''start_time'' now d1 else d1)
           in case map_of d2 ''start_time'' of
                None \<Rightarrow> (Inl KeyError, s)
              | Some start_time \<Rightarrow>
                  (let d3 = (if map_of d2 ''heartbeat'' = None
                             then dict_set ''heartbeat'' start_time d2 else d2);
                       d4 = (if map_of d3 ''status'' = None
                             then dict_set ''status'' (VStr ''RUNNING'') d3 else d3);
                       s1 = ensure_indexes s
                   in case insert_one fresh d4 (collection s1) of
                        Inl e \<Rightarrow> (Inl e, s1)
                      | Inr (inserted_id, coll') \<Rightarrow> (Inr inserted_id, s1\<lparr>collection := coll'\<rparr>))))"

text \<open>The private method \<^verbatim>\<open>_update\<close>.\<close>

definition priv_update :: "val \<Rightarrow> doc \<Rightarrow> mldb \<Rightarrow> (error + unit) \<times> mldb" where
  "priv_update eid doc_fields s =
     (case update_one [(''_id'', eid), not_deleted] doc_fields (collection s) of
        Inl e \<Rightarrow> (Inl e, s)
      | Inr (matched_count, coll') \<Rightarrow>
          if matched_count < 1 then (Inl KeyError, s\<lparr>collection := coll'\<rparr>)
          else (Inr (), s\<lparr>collection := coll'\<rparr>))"

definition update :: "schema \<Rightarrow> val \<Rightarrow> doc option \<Rightarrow> mldb \<Rightarrow> (error + unit) \<times> mldb" where
  "update S eid doc_fields s =
     (case validate_experiment_id S eid of
        None \<Rightarrow> (Inl InvalidIdentifier, s)
      | Some i \<Rightarrow>
          (case validate_experiment_doc S (pop_experiment_id (dict_or_empty doc_fields)) of
             None \<Rightarrow> (Inl ValidationError, s)
           | Some flds \<Rightarrow>
               (let s1 = ensure_indexes s
                in if flds \<noteq> [] then priv_update (VObjectId i) flds s1
                   else (Inr (), s1))))"

definition set_heartbeat :: "schema \<Rightarrow> val \<Rightarrow> val \<Rightarrow> doc option \<Rightarrow> mldb \<Rightarrow> (error + unit) \<times> mldb" where
  "set_heartbeat S now eid doc_fields s =
     (case validate_experiment_doc S (pop_experiment_id (dict_or_empty doc_fields)) of
        None \<Rightarrow> (Inl ValidationError, s)
      | Some flds \<Rightarrow>
          priv_update eid (dict_set ''heartbeat'' now flds) (ensure_indexes s))"

definition finished_fields :: "val \<Rightarrow> string \<Rightarrow> doc \<Rightarrow> doc" where
  "finished_fields now status flds =
     dict_set ''status'' (VStr status)
       (dict_set ''stop_time'' now (dict_set ''heartbeat'' now flds))"

definition set_finished :: "schema \<Rightarrow> val \<Rightarrow> val \<Rightarrow> string \<Rightarrow> doc option \<Rightarrow> mldb \<Rightarrow> (error + unit) \<times> mldb" where
  "set_finished S now eid status doc_fields s =
     (if status \<notin> {''COMPLETED'', ''FAILED''} then (Inl ValueError, s)
      else
        (case validate_experiment_doc S (pop_experiment_id (dict_or_empty doc_fields)) of
           None \<Rightarrow> (Inl ValidationError, s)
         | Some flds \<Rightarrow>
             priv_update eid (finished_fields now status flds) (ensure_indexes s)))"



text \<open>
  \<^verbatim>\<open>set(validate_experiment_id(i) for i in id_list)\<close>: every identifier is validated,
  in order, before the set exists; the first rejection ends the call.
\<close>

fun validate_ids :: "schema \<Rightarrow> val list \<Rightarrow> ObjectId list option" where
  "validate_ids S [] = Some []"
| "validate_ids S (i # is) =
     (case validate_experiment_id S i of
        None \<Rightarrow> None
      | Some v \<Rightarrow> (case validate_ids S is of None \<Rightarrow> None | Some vs \<Rightarrow> Some (v # vs)))"

text \<open>The deletion tasks, one per identifier, and the sum of their counts.\<close>

fun deletion_tasks :: "ObjectId list \<Rightarrow> doc list \<Rightarrow> nat \<times> doc list" where
  "deletion_tasks [] coll = (0, coll)"
| "deletion_tasks (i # is) coll =
     (case delete_one [(''_id'', VObjectId i)] coll of
        (deleted_count, coll') \<Rightarrow>
          (case deletion_tasks is coll' of (m, coll'') \<Rightarrow> (deleted_count + m, coll'')))"

definition complete_deletion :: "schema \<Rightarrow> val list \<Rightarrow> mldb \<Rightarrow> (error + nat) \<times> mldb" where
  "complete_deletion S id_list s =
     (case validate_ids S id_list of
        None \<Rightarrow> (Inl InvalidIdentifier, s)
      | Some ids \<Rightarrow>
          (let s1 = ensure_indexes s
           in case deletion_tasks (remdups ids) (collection s1) of
                (n, coll') \<Rightarrow> (Inr n, s1\<lparr>collection := coll'\<rparr>)))"

text \<open>
  \<^verbatim>\<open>iter_docs\<close> reads only; the documents it yields are the list returned. \<open>skip\<close> and
  \<open>limit\<close> are natural numbers or None, and the source applies neither when it is 0.
\<close>

definition iter_docs ::
  "schema \<Rightarrow> (val option \<Rightarrow> 'o::linorder) \<Rightarrow> doc option \<Rightarrow> nat option \<Rightarrow> nat option \<Rightarrow>
   (string \<times> direction) list option \<Rightarrow> bool \<Rightarrow> mldb \<Rightarrow> error + doc list" where
  "iter_docs S ord flt skip limit sort_by include_deleted s =
     (case validate_experiment_doc S (dict_or_empty flt) of
        None \<Rightarrow> Inl ValidationError
      | Some v \<Rightarrow>
          (let filter0 = rename_id_to_database v;
               filter1 = (if \<not> include_deleted
                          then dict_set (fst not_deleted) (snd not_deleted) filter0 else filter0);
               sort1 = (case sort_by of None \<Rightarrow> [(''heartbeat'', DESCENDING)] | Some sb \<Rightarrow> sb);
               cursor0 = find_sorted ord filter1 sort1 (collection s);
               cursor1 = (case skip of None \<Rightarrow> cursor0
                          | Some n \<Rightarrow> if n \<noteq> 0 then drop n cursor0 else cursor0);
               cursor2 = (case limit of None \<Rightarrow> cursor1
                          | Some n \<Rightarrow> if n \<noteq> 0 then take n cursor1 else cursor1)
           in Inr (map rename_id_from_database cursor2)))"

definition fetch_docs ::
  "schema \<Rightarrow> (val option \<Rightarrow> 'o::linorder) \<Rightarrow> doc option \<Rightarrow> nat option \<Rightarrow> nat option \<Rightarrow>
   (string \<times> direction) list option \<Rightarrow> bool \<Rightarrow> mldb \<Rightarrow> error + doc list" where
  "fetch_docs S ord flt skip limit sort_by include_deleted s =
     iter_docs S ord flt skip limit sort_by include_deleted s"

section \<open>Notions of the specification\<close>

text \<open>
  The database keeps two invariants of its own: every stored document has a key (here
  an ObjectId, the only keys this store assigns), and no two documents share one.
\<close>

definition wf_coll :: "doc list \<Rightarrow> bool" where
  "wf_coll coll =
     (list_all (\<lambda>d. case map_of d ''_id'' of Some (VObjectId _) \<Rightarrow> True | _ \<Rightarrow> False) coll \<and>
      distinct (map (\<lambda>d. map_of d ''_id'') coll))"

definition has_doc :: "doc list \<Rightarrow> val \<Rightarrow> bool" where
  "has_doc coll i = list_ex (\<lambda>d. map_of d ''_id'' = Some i) coll"

text \<open>A document is visible when its \<open>deleted\<close> flag is absent or not true.\<close>

definition visible :: "doc \<Rightarrow> bool" where
  "visible d = (map_of d ''deleted'' \<noteq> Some (VBool True))"

text \<open>The children of a document, in natural order, and the relation they span.\<close>

definition children :: "doc list \<Rightarrow> val \<Rightarrow> val list" where
  "children coll i =
     List.map_filter
       (\<lambda>d. if map_of d ''parent_id'' = Some i then map_of d ''_id'' else None) coll"




text \<open>The collection after the documents with a key in \<open>A\<close> have been marked.\<close>

definition mark_deleted :: "val set \<Rightarrow> doc list \<Rightarrow> doc list" where
  "mark_deleted A coll =
     map (\<lambda>d. if map_of d ''_id'' \<in> Some ` A then dict_set ''deleted'' (VBool True) d else d) coll"



text \<open>Descending order of a field, in the order of the database.\<close>

definition descending_on :: "(val option \<Rightarrow> 'o::linorder) \<Rightarrow> string \<Rightarrow> doc list \<Rightarrow> bool" where
  "descending_on ord fld ds = sorted_wrt (\<lambda>a b. b \<le> a) (map (\<lambda>d. ord (map_of d fld)) ds)"

text \<open>
  A schema to run the operations with: it takes an ObjectId for an identifier and
  rejects every other value, and it accepts every document as it is.
\<close>

definition example_schema :: schema where
  "example_schema =
     \<lparr>validate_experiment_id = (\<lambda>v. case v of VObjectId i \<Rightarrow> Some i | _ \<Rightarrow> None),
      validate_experiment_doc = Some\<rparr>"


text \<open>
  The experiment tree of the specification's example: a root with two children, the
  first of which has a child of its own; the second child is already soft-deleted.
\<close>

definition example_docs :: "doc list" where
  "example_docs =
     [[(''_id'', VObjectId 1), (''name'', VStr ''root''), (''heartbeat'', VDate 10)],
      [(''_id'', VObjectId 2), (''parent_id'', VObjectId 1), (''heartbeat'', VDate 30)],
      [(''_id'', VObjectId 3), (''parent_id'', VObjectId 1), (''heartbeat'', VDate 20),
       (''deleted'', VBool True)],
      [(''_id'', VObjectId 4), (''parent_id'', VObjectId 2), (''heartbeat'', VDate 40)]]"

definition example_store :: mldb where
  "example_store = \<lparr>collection = example_docs, index_information = [], indexes_ensured = False\<rparr>"



section \<open>Basic facts\<close>

lemma map_of_dict_set: "map_of (dict_set k v d) = (map_of d)(k \<mapsto> v)"
  by (simp add: dict_set_def update_conv')

lemma map_of_dict_pop: "map_of (dict_pop k d) = (map_of d)(k := None)"
  by (simp add: dict_pop_def delete_conv')

lemma cond_holds_ObjectId [simp]: "cond_holds (VObjectId i) fld \<longleftrightarrow> fld = Some (VObjectId i)"
  by (simp add: cond_holds_def)

lemma cond_holds_ne [simp]: "cond_holds (VDict [(''$ne'', x)]) fld \<longleftrightarrow> fld \<noteq> Some x"
  by (simp add: cond_holds_def)

lemma matches_Nil [simp]: "matches [] d"
  by (simp add: matches_def)

lemma matches_Cons [simp]:
  "matches ((k, c) # flt) d \<longleftrightarrow> cond_holds c (map_of d k) \<and> matches flt d"
  by (simp add: matches_def)

lemma matches_visible_key:
  "matches [(''_id'', VObjectId i), not_deleted] d \<longleftrightarrow>
     map_of d ''_id'' = Some (VObjectId i) \<and> visible d"
  by (simp add: not_deleted_def visible_def)

lemma collection_ensure_indexes [simp]: "collection (ensure_indexes s) = collection s"
  by (simp add: ensure_indexes_def)

lemma ensure_indexes_idem: "indexes_ensured s \<Longrightarrow> ensure_indexes s = s"
  by (simp add: ensure_indexes_def)

lemma update_one_no_match:
  "\<forall>d \<in> set coll. \<not> matches flt d \<Longrightarrow> update_one flt flds coll = Inr (0, coll)"
  by (induction coll) auto

lemma validate_ids_None:
  "x \<in> set id_list \<Longrightarrow> validate_experiment_id S x = None \<Longrightarrow> validate_ids S id_list = None"
  by (induction id_list) (auto split: option.splits)

section \<open>The identifier renaming\<close>

text \<open>
  Claim C8. The two renamings exclude each other's name: what
  \<open>to_database_experiment_doc\<close> returns never has the key \<open>id\<close>, what
  \<open>from_database_experiment_doc\<close> returns never has the key \<open>_id\<close>, and None is
  returned as None. A document with neither key comes back unchanged from both. For a
  document with \<open>id\<close> and without \<open>_id\<close>, renaming out and back in gives a dictionary
  equal to the original.
\<close>

theorem rename_transforms:
  "(\<exists>d'. to_database_experiment_doc (Some d) = Some d' \<and> map_of d' ''id'' = None) \<and>
   (\<exists>d'. from_database_experiment_doc (Some d) = Some d' \<and> map_of d' ''_id'' = None) \<and>
   to_database_experiment_doc None = None \<and> from_database_experiment_doc None = None \<and>
   (map_of d ''id'' = None \<and> map_of d ''_id'' = None \<longrightarrow>
      to_database_experiment_doc (Some d) = Some d \<and>
      from_database_experiment_doc (Some d) = Some d) \<and>
   (map_of d ''id'' \<noteq> None \<and> map_of d ''_id'' = None \<longrightarrow>
      (\<exists>d'. from_database_experiment_doc (to_database_experiment_doc (Some d)) = Some d' \<and>
            map_of d' = map_of d))"
  by (auto simp: to_database_experiment_doc_def from_database_experiment_doc_def
      rename_id_to_database_def rename_id_from_database_def map_of_dict_set map_of_dict_pop
      fun_eq_iff split: option.splits)

theorem rename_transforms_witness:
  "to_database_experiment_doc (Some [(''name'', VStr ''a'')]) = Some [(''name'', VStr ''a'')] \<and>
   from_database_experiment_doc (Some [(''name'', VStr ''a'')]) = Some [(''name'', VStr ''a'')] \<and>
   (\<exists>d'. from_database_experiment_doc
           (to_database_experiment_doc (Some [(''id'', VObjectId 7), (''name'', VStr ''a'')]))
         = Some d' \<and>
         map_of d' = map_of [(''id'', VObjectId 7), (''name'', VStr ''a'')])"
  using rename_transforms [of "[(''name'', VStr ''a'')]"]
    rename_transforms [of "[(''id'', VObjectId 7), (''name'', VStr ''a'')]"]
  by simp

section \<open>Updates\<close>

text \<open>
  Claim C3. For a well-formed identifier, an update whose fields are empty after the
  identifier has been stripped and the rest validated returns without an exception,
  and the collection holds the same documents afterwards (only the indexes may have
  been ensured).
\<close>

theorem update_empty_fields_noop:
  assumes "validate_experiment_id S eid = Some i"
    and "validate_experiment_doc S (pop_experiment_id (dict_or_empty doc_fields)) = Some []"
  shows "update S eid doc_fields s = (Inr (), ensure_indexes s) \<and>
         collection (ensure_indexes s) = collection s"
  using assms by (simp add: update_def)

theorem update_empty_fields_noop_witness:
  "validate_experiment_id example_schema (VObjectId 9) = Some 9 \<and>
   validate_experiment_doc example_schema
     (pop_experiment_id (dict_or_empty (Some [(''id'', VObjectId 9)]))) = Some [] \<and>
   update example_schema (VObjectId 9) (Some [(''id'', VObjectId 9)]) example_store
     = (Inr (), ensure_indexes example_store) \<and>
   collection (ensure_indexes example_store) = example_docs"
proof -
  have a: "validate_experiment_id example_schema (VObjectId 9) = Some 9"
    by (simp add: example_schema_def)
  have b: "validate_experiment_doc example_schema
             (pop_experiment_id (dict_or_empty (Some [(''id'', VObjectId 9)]))) = Some []"
    by (simp add: example_schema_def pop_experiment_id_def dict_or_empty_def dict_pop_def)
  show ?thesis
    using a b update_empty_fields_noop [OF a b, of example_store]
    by (simp add: example_store_def)
qed

section \<open>Hard deletion\<close>

text \<open>
  Claim C9. When the identifier list holds a malformed identifier, complete_deletion
  raises the validation failure before any deletion task exists: the store, and so
  every document, is as it was.
\<close>

theorem complete_deletion_validates_first:
  assumes "\<exists>x \<in> set id_list. validate_experiment_id S x = None"
  shows "complete_deletion S id_list s = (Inl InvalidIdentifier, s)"
  using assms by (auto simp: complete_deletion_def validate_ids_None)

theorem complete_deletion_validates_first_witness:
  "validate_experiment_id example_schema (VStr ''nope'') = None \<and>
   complete_deletion example_schema [VObjectId 1, VStr ''nope'', VObjectId 2] example_store
     = (Inl InvalidIdentifier, example_store)"
proof -
  have a: "validate_experiment_id example_schema (VStr ''nope'') = None"
    by (simp add: example_schema_def)
  then have "\<exists>x \<in> set [VObjectId 1, VStr ''nope'', VObjectId 2].
               validate_experiment_id example_schema x = None"
    by simp
  from complete_deletion_validates_first [OF this, of example_store] a
  show ?thesis by simp
qed

section \<open>Updates of a missing document\<close>

lemma update_one_first_match:
  "\<forall>e \<in> set ds1. \<not> matches flt e \<Longrightarrow> matches flt d \<Longrightarrow> \<not> changes_id flds d \<Longrightarrow>
   update_one flt flds (ds1 @ d # ds2) = Inr (1, ds1 @ AList.merge d flds # ds2)"
  by (induction ds1) auto

lemma map_of_finished_fields:
  "map_of (finished_fields now status flds) =
     (map_of flds)(''heartbeat'' \<mapsto> now, ''stop_time'' \<mapsto> now, ''status'' \<mapsto> VStr status)"
  by (simp add: finished_fields_def map_of_dict_set)

text \<open>
  Claim C2, as amended. For a well-formed identifier with no document that has this
  identifier and is not soft-deleted, an update whose validated fields are not empty
  fails with KeyError (NotFound), and the documents stay as they were. The claim as
  stated, for every field map, fails: with no field left after stripping the
  identifier, update returns without looking the document up.
\<close>

theorem update_missing_not_found:
  assumes "validate_experiment_id S eid = Some i"
    and "\<forall>d \<in> set (collection s). \<not> (map_of d ''_id'' = Some (VObjectId i) \<and> visible d)"
    and "validate_experiment_doc S (pop_experiment_id (dict_or_empty doc_fields)) = Some flds"
    and "flds \<noteq> []"
  shows "update S eid doc_fields s = (Inl KeyError, ensure_indexes s)"
proof -
  have "\<forall>d \<in> set (collection (ensure_indexes s)).
          \<not> matches [(''_id'', VObjectId i), not_deleted] d"
    using assms(2) by (simp add: not_deleted_def visible_def)
  then have "update_one [(''_id'', VObjectId i), not_deleted] flds (collection (ensure_indexes s))
             = Inr (0, collection (ensure_indexes s))"
    by (rule update_one_no_match)
  then show ?thesis
    using assms(1,3,4) by (simp add: update_def priv_update_def)
qed

theorem update_missing_not_found_witness:
  "validate_experiment_id example_schema (VObjectId 3) = Some 3 \<and>
   update example_schema (VObjectId 3) (Some [(''status'', VStr ''FAILED'')]) example_store
     = (Inl KeyError, ensure_indexes example_store)"
proof -
  have a: "validate_experiment_id example_schema (VObjectId 3) = Some 3"
    by (simp add: example_schema_def)
  have b: "\<forall>d \<in> set (collection example_store).
             \<not> (map_of d ''_id'' = Some (VObjectId 3) \<and> visible d)"
    by (simp add: example_store_def example_docs_def visible_def)
  have c: "validate_experiment_doc example_schema
             (pop_experiment_id (dict_or_empty (Some [(''status'', VStr ''FAILED'')])))
           = Some [(''status'', VStr ''FAILED'')]"
    by (simp add: example_schema_def pop_experiment_id_def dict_or_empty_def dict_pop_def)
  have d: "[(''status'', VStr ''FAILED'')] \<noteq> []" by simp
  from update_missing_not_found [OF a b c d] a show ?thesis by simp
qed

text \<open>
  The soft-deleted document 3 of the example: an update that carries only the
  identifier succeeds, although no visible document has this identifier.
\<close>

theorem update_missing_silent_counterexample:
  "validate_experiment_id example_schema (VObjectId 3) = Some 3 \<and>
   \<not> (\<exists>d \<in> set (collection example_store). map_of d ''_id'' = Some (VObjectId 3) \<and> visible d) \<and>
   update example_schema (VObjectId 3) (Some [(''id'', VObjectId 3)]) example_store
     = (Inr (), ensure_indexes example_store)"
  by (simp add: example_schema_def example_store_def example_docs_def visible_def update_def
      pop_experiment_id_def dict_or_empty_def dict_pop_def)

section \<open>Finishing an experiment\<close>

text \<open>
  Claim C5. A status other than COMPLETED and FAILED makes set_finished raise
  ValueError (InvalidArgument) at once: the store it leaves is the store it found,
  indexes included, so nothing has reached the database. With COMPLETED or FAILED,
  fields that validate, and a visible document for the identifier, the call succeeds
  and the first such document is the only one changed: its stop_time and heartbeat are
  the current time and its status the given one, whatever the caller supplied for them.
\<close>

theorem set_finished_status:
  "(status \<notin> {''COMPLETED'', ''FAILED''} \<longrightarrow>
      set_finished S now eid status doc_fields s = (Inl ValueError, s)) \<and>
   (status \<in> {''COMPLETED'', ''FAILED''} \<and>
    validate_experiment_doc S (pop_experiment_id (dict_or_empty doc_fields)) = Some flds \<and>
    map_of flds ''_id'' = None \<and>
    (\<exists>d \<in> set (collection s). matches [(''_id'', eid), not_deleted] d) \<longrightarrow>
      (\<exists>ds1 d ds2 d'.
          collection s = ds1 @ d # ds2 \<and>
          (\<forall>e \<in> set ds1. \<not> matches [(''_id'', eid), not_deleted] e) \<and>
          matches [(''_id'', eid), not_deleted] d \<and>
          set_finished S now eid status doc_fields s
            = (Inr (), (ensure_indexes s)\<lparr>collection := ds1 @ d' # ds2\<rparr>) \<and>
          map_of d' ''stop_time'' = Some now \<and>
          map_of d' ''heartbeat'' = Some now \<and>
          map_of d' ''status'' = Some (VStr status) \<and>
          map_of d' ''_id'' = map_of d ''_id''))"
proof (intro conjI impI)
  assume "status \<notin> {''COMPLETED'', ''FAILED''}"
  then show "set_finished S now eid status doc_fields s = (Inl ValueError, s)"
    by (simp add: set_finished_def)
next
  let ?flt = "[(''_id'', eid), not_deleted]"
  let ?upd = "finished_fields now status flds"
  assume a: "status \<in> {''COMPLETED'', ''FAILED''} \<and>
    validate_experiment_doc S (pop_experiment_id (dict_or_empty doc_fields)) = Some flds \<and>
    map_of flds ''_id'' = None \<and>
    (\<exists>d \<in> set (collection s). matches ?flt d)"
  then obtain ds1 d ds2 where split: "collection s = ds1 @ d # ds2" "matches ?flt d"
      "\<forall>e \<in> set ds1. \<not> matches ?flt e"
    using split_list_first_prop [of "collection s" "matches ?flt"] by blast
  have nc: "\<not> changes_id ?upd d"
    using a by (simp add: changes_id_def map_of_finished_fields)
  have u: "update_one ?flt ?upd (collection (ensure_indexes s))
           = Inr (1, ds1 @ AList.merge d ?upd # ds2)"
    using update_one_first_match [OF split(3) split(2) nc] split(1) by simp
  have r: "set_finished S now eid status doc_fields s
           = (Inr (), (ensure_indexes s)\<lparr>collection := ds1 @ AList.merge d ?upd # ds2\<rparr>)"
    using a u by (simp add: set_finished_def priv_update_def)
  have f: "map_of (AList.merge d ?upd) ''stop_time'' = Some now"
      "map_of (AList.merge d ?upd) ''heartbeat'' = Some now"
      "map_of (AList.merge d ?upd) ''status'' = Some (VStr status)"
      "map_of (AList.merge d ?upd) ''_id'' = map_of d ''_id''"
    using a by (simp_all add: merge_conv' map_of_finished_fields map_add_def)
  show "\<exists>ds1 d ds2 d'.
          collection s = ds1 @ d # ds2 \<and>
          (\<forall>e \<in> set ds1. \<not> matches ?flt e) \<and>
          matches ?flt d \<and>
          set_finished S now eid status doc_fields s
            = (Inr (), (ensure_indexes s)\<lparr>collection := ds1 @ d' # ds2\<rparr>) \<and>
          map_of d' ''stop_time'' = Some now \<and>
          map_of d' ''heartbeat'' = Some now \<and>
          map_of d' ''status'' = Some (VStr status) \<and>
          map_of d' ''_id'' = map_of d ''_id''"
    by (rule exI [of _ ds1], rule exI [of _ d], rule exI [of _ ds2],
        rule exI [of _ "AList.merge d ?upd"])
      (use split r f in simp)
qed

theorem set_finished_status_witness:
  "set_finished example_schema (VDate 50) (VObjectId 1) ''RUNNING'' None example_store
     = (Inl ValueError, example_store) \<and>
   (\<exists>ds1 d ds2 d'.
      collection example_store = ds1 @ d # ds2 \<and>
      set_finished example_schema (VDate 50) (VObjectId 1) ''FAILED''
          (Some [(''status'', VStr ''RUNNING''), (''heartbeat'', VDate 1)]) example_store
        = (Inr (), (ensure_indexes example_store)\<lparr>collection := ds1 @ d' # ds2\<rparr>) \<and>
      map_of d' ''stop_time'' = Some (VDate 50) \<and>
      map_of d' ''heartbeat'' = Some (VDate 50) \<and>
      map_of d' ''status'' = Some (VStr ''FAILED'') \<and>
      map_of d' ''_id'' = Some (VObjectId 1))"
proof -
  let ?given = "[(''status'', VStr ''RUNNING''), (''heartbeat'', VDate 1)]"
  let ?flt = "[(''_id'', VObjectId 1), not_deleted]"
  have r: "set_finished example_schema (VDate 50) (VObjectId 1) ''RUNNING'' None example_store
             = (Inl ValueError, example_store)"
    using set_finished_status [where status = "''RUNNING''" and S = example_schema
        and now = "VDate 50" and eid = "VObjectId 1" and doc_fields = None
        and s = example_store]
    by simp
  have h: "''FAILED'' \<in> {''COMPLETED'', ''FAILED''} \<and>
      validate_experiment_doc example_schema
        (pop_experiment_id (dict_or_empty (Some ?given))) = Some ?given \<and>
      map_of ?given ''_id'' = None \<and>
      (\<exists>d \<in> set (collection example_store). matches ?flt d)"
    by (simp add: example_schema_def pop_experiment_id_def dict_or_empty_def dict_pop_def
        example_store_def example_docs_def not_deleted_def)
  from set_finished_status [THEN conjunct2, THEN mp, OF h, of "VDate 50"]
  obtain ds1 d ds2 d' where
    w: "collection example_store = ds1 @ d # ds2"
      "\<forall>e \<in> set ds1. \<not> matches ?flt e"
      "matches ?flt d"
      "set_finished example_schema (VDate 50) (VObjectId 1) ''FAILED'' (Some ?given) example_store
         = (Inr (), (ensure_indexes example_store)\<lparr>collection := ds1 @ d' # ds2\<rparr>)"
      "map_of d' ''stop_time'' = Some (VDate 50)"
      "map_of d' ''heartbeat'' = Some (VDate 50)"
      "map_of d' ''status'' = Some (VStr ''FAILED'')"
      "map_of d' ''_id'' = map_of d ''_id''"
    by blast
  from w(3) have "map_of d ''_id'' = Some (VObjectId 1)" by simp
  with w r show ?thesis by auto
qed

section \<open>Creation\<close>

lemma has_doc_iff: "has_doc coll i \<longleftrightarrow> (\<exists>d \<in> set coll. map_of d ''_id'' = Some i)"
  by (simp add: has_doc_def list_ex_iff)

lemma insert_one_fresh:
  assumes "map_of d ''_id'' = None" and "\<not> has_doc coll (VObjectId fresh)"
  shows "insert_one fresh d coll
         = Inr (VObjectId fresh, coll @ [dict_set ''_id'' (VObjectId fresh) d])"
  using assms by (simp add: insert_one_def map_of_dict_set has_doc_def)

lemma insert_one_Inr:
  assumes "insert_one fresh d coll = Inr (i, coll')"
  shows "\<exists>d'. coll' = coll @ [d'] \<and> map_of d' ''_id'' = Some i \<and>
              (\<forall>k. k \<noteq> ''_id'' \<longrightarrow> map_of d' k = map_of d k)"
proof (cases "map_of d ''_id''")
  case None
  with assms show ?thesis
    by (auto simp: insert_one_def map_of_dict_set split: if_splits)
next
  case (Some a)
  with assms show ?thesis
    by (auto simp: insert_one_def split: if_splits)
qed

text \<open>The document create hands to insert_one, field by field.\<close>

lemma create_unfold:
  assumes v: "validate_experiment_doc S (pop_experiment_id (dict_or_empty doc_fields)) = Some d0"
  shows "\<exists>d4. create S now fresh name doc_fields s
               = (case insert_one fresh d4 (collection s) of
                    Inl e \<Rightarrow> (Inl e, ensure_indexes s)
                  | Inr (i, coll') \<Rightarrow> (Inr i, (ensure_indexes s)\<lparr>collection := coll'\<rparr>)) \<and>
              map_of d4 ''_id'' = map_of d0 ''_id'' \<and>
              map_of d4 ''name'' = Some (VStr name) \<and>
              map_of d4 ''start_time''
                = Some (case map_of d0 ''start_time'' of None \<Rightarrow> now | Some t \<Rightarrow> t) \<and>
              map_of d4 ''heartbeat''
                = (case map_of d0 ''heartbeat'' of
                     None \<Rightarrow> map_of d4 ''start_time'' | Some h \<Rightarrow> Some h) \<and>
              map_of d4 ''status''
                = Some (case map_of d0 ''status'' of None \<Rightarrow> VStr ''RUNNING'' | Some x \<Rightarrow> x) \<and>
              map_of d4 ''deleted'' = map_of d0 ''deleted''"
proof -
  define st where "st = (case map_of d0 ''start_time'' of None \<Rightarrow> now | Some t \<Rightarrow> t)"
  define d1 where "d1 = dict_set ''name'' (VStr name) d0"
  define d2 where
    "d2 = (if map_of d1 ''start_time'' = None then dict_set ''start_time'' now d1 else d1)"
  define d3 where
    "d3 = (if map_of d2 ''heartbeat'' = None then dict_set ''heartbeat'' st d2 else d2)"
  define d4 where
    "d4 = (if map_of d3 ''status'' = None then dict_set ''status'' (VStr ''RUNNING'') d3 else d3)"
  have m1: "map_of d1 = (map_of d0)(''name'' \<mapsto> VStr name)"
    by (simp add: d1_def map_of_dict_set)
  have m2: "map_of d2 = (map_of d1)(''start_time'' \<mapsto> st)"
    by (cases "map_of d0 ''start_time''")
      (auto simp: d2_def st_def m1 map_of_dict_set fun_eq_iff)
  have s2: "map_of d2 ''start_time'' = Some st"
    by (simp add: m2)
  have m3: "map_of d3 = (map_of d2)(''heartbeat'' \<mapsto>
              (case map_of d0 ''heartbeat'' of None \<Rightarrow> st | Some h \<Rightarrow> h))"
    by (cases "map_of d0 ''heartbeat''")
      (auto simp: d3_def m2 m1 map_of_dict_set fun_eq_iff)
  have m4: "map_of d4 = (map_of d3)(''status'' \<mapsto>
              (case map_of d0 ''status'' of None \<Rightarrow> VStr ''RUNNING'' | Some x \<Rightarrow> x))"
    by (cases "map_of d0 ''status''")
      (auto simp: d4_def m3 m2 m1 map_of_dict_set fun_eq_iff)
  have c: "create S now fresh name doc_fields s
             = (case insert_one fresh d4 (collection s) of
                  Inl e \<Rightarrow> (Inl e, ensure_indexes s)
                | Inr (i, coll') \<Rightarrow> (Inr i, (ensure_indexes s)\<lparr>collection := coll'\<rparr>))"
    unfolding create_def v option.case Let_def
    unfolding d1_def [symmetric]
    unfolding d2_def [symmetric] s2 option.case
    unfolding st_def [symmetric] d3_def [symmetric] d4_def [symmetric]
    by simp
  show ?thesis
    by (rule exI [of _ d4])
      (simp add: c m4 m3 m2 m1 st_def split: option.splits)
qed



lemma create_inserted:
  assumes c: "create S now fresh name doc_fields s = (Inr i, s')"
  shows "\<exists>d. collection s' = collection s @ [d] \<and> map_of d ''_id'' = Some i \<and>
             map_of d ''name'' = Some (VStr name)"
proof (cases "validate_experiment_doc S (pop_experiment_id (dict_or_empty doc_fields))")
  case None
  with c show ?thesis by (simp add: create_def)
next
  case (Some d0)
  from create_unfold [OF Some, of now fresh name s] obtain d4 where
    u: "create S now fresh name doc_fields s
          = (case insert_one fresh d4 (collection s) of
               Inl e \<Rightarrow> (Inl e, ensure_indexes s)
             | Inr (i, coll') \<Rightarrow> (Inr i, (ensure_indexes s)\<lparr>collection := coll'\<rparr>))"
    and n: "map_of d4 ''name'' = Some (VStr name)"
    by blast
  from c u obtain coll' where
    i: "insert_one fresh d4 (collection s) = Inr (i, coll')" and s': "collection s' = coll'"
    by (auto split: sum.splits)
  from insert_one_Inr [OF i] n s' show ?thesis by auto
qed

lemma create_result:
  assumes v: "validate_experiment_doc S (pop_experiment_id (dict_or_empty doc_fields)) = Some d0"
    and k: "map_of d0 ''_id'' = None"
    and f: "\<not> has_doc (collection s) (VObjectId fresh)"
  shows "\<exists>d. create S now fresh name doc_fields s
               = (Inr (VObjectId fresh), (ensure_indexes s)\<lparr>collection := collection s @ [d]\<rparr>) \<and>
             map_of d ''_id'' = Some (VObjectId fresh) \<and>
             map_of d ''name'' = Some (VStr name) \<and>
             map_of d ''start_time''
               = Some (case map_of d0 ''start_time'' of None \<Rightarrow> now | Some t \<Rightarrow> t) \<and>
             map_of d ''heartbeat''
               = (case map_of d0 ''heartbeat'' of None \<Rightarrow> map_of d ''start_time'' | Some h \<Rightarrow> Some h) \<and>
             map_of d ''status''
               = Some (case map_of d0 ''status'' of None \<Rightarrow> VStr ''RUNNING'' | Some x \<Rightarrow> x) \<and>
             map_of d ''deleted'' = map_of d0 ''deleted''"
proof -
  from create_unfold [OF v, of now fresh name s] obtain d4 where
    u: "create S now fresh name doc_fields s
          = (case insert_one fresh d4 (collection s) of
               Inl e \<Rightarrow> (Inl e, ensure_indexes s)
             | Inr (i, coll') \<Rightarrow> (Inr i, (ensure_indexes s)\<lparr>collection := coll'\<rparr>))"
    and d: "map_of d4 ''_id'' = map_of d0 ''_id''"
      "map_of d4 ''name'' = Some (VStr name)"
      "map_of d4 ''start_time''
         = Some (case map_of d0 ''start_time'' of None \<Rightarrow> now | Some t \<Rightarrow> t)"
      "map_of d4 ''heartbeat''
         = (case map_of d0 ''heartbeat'' of None \<Rightarrow> map_of d4 ''start_time'' | Some h \<Rightarrow> Some h)"
      "map_of d4 ''status''
         = Some (case map_of d0 ''status'' of None \<Rightarrow> VStr ''RUNNING'' | Some x \<Rightarrow> x)"
      "map_of d4 ''deleted'' = map_of d0 ''deleted''"
    by blast
  have i: "insert_one fresh d4 (collection s)
           = Inr (VObjectId fresh, collection s @ [dict_set ''_id'' (VObjectId fresh) d4])"
    using d(1) k f by (simp add: insert_one_fresh)
  show ?thesis
    by (rule exI [of _ "dict_set ''_id'' (VObjectId fresh) d4"])
      (simp add: u i d map_of_dict_set split: option.splits)
qed

text \<open>
  Claim C10. Whatever the field map says about \<open>name\<close>, a create that succeeds has
  appended one document to the collection, under the identifier it returns, whose
  \<open>name\<close> is the name argument; and create does succeed when the fields validate and
  the generated ObjectId is new to the collection.
\<close>

theorem create_stores_name:
  "(create S now fresh name doc_fields s = (Inr i, s') \<longrightarrow>
      (\<exists>d. collection s' = collection s @ [d] \<and> map_of d ''_id'' = Some i \<and>
           map_of d ''name'' = Some (VStr name))) \<and>
   (validate_experiment_doc S (pop_experiment_id (dict_or_empty doc_fields)) = Some d0 \<and>
    map_of d0 ''_id'' = None \<and> \<not> has_doc (collection s) (VObjectId fresh) \<longrightarrow>
      (\<exists>d. create S now fresh name doc_fields s
             = (Inr (VObjectId fresh), (ensure_indexes s)\<lparr>collection := collection s @ [d]\<rparr>) \<and>
           map_of d ''name'' = Some (VStr name)))"
proof (intro conjI impI)
  assume "create S now fresh name doc_fields s = (Inr i, s')"
  then show "\<exists>d. collection s' = collection s @ [d] \<and> map_of d ''_id'' = Some i \<and>
           map_of d ''name'' = Some (VStr name)"
    by (rule create_inserted)
next
  assume "validate_experiment_doc S (pop_experiment_id (dict_or_empty doc_fields)) = Some d0 \<and>
    map_of d0 ''_id'' = None \<and> \<not> has_doc (collection s) (VObjectId fresh)"
  then obtain d where
    "create S now fresh name doc_fields s
       = (Inr (VObjectId fresh), (ensure_indexes s)\<lparr>collection := collection s @ [d]\<rparr>)"
    "map_of d ''name'' = Some (VStr name)"
    using create_result [of S doc_fields d0 s fresh now name] by blast
  then show "\<exists>d. create S now fresh name doc_fields s
             = (Inr (VObjectId fresh), (ensure_indexes s)\<lparr>collection := collection s @ [d]\<rparr>) \<and>
           map_of d ''name'' = Some (VStr name)"
    by blast
qed

theorem create_stores_name_witness:
  "create example_schema (VDate 9) 5 ''run'' (Some [(''name'', VStr ''other'')]) example_store
     = (Inr (VObjectId 5),
        \<lparr>collection = example_docs @
           [[(''name'', VStr ''run''), (''start_time'', VDate 9), (''heartbeat'', VDate 9),
             (''status'', VStr ''RUNNING''), (''_id'', VObjectId 5)]],
         index_information = required_indexes, indexes_ensured = True\<rparr>) \<and>
   (\<exists>d. example_docs @
           [[(''name'', VStr ''run''), (''start_time'', VDate 9), (''heartbeat'', VDate 9),
             (''status'', VStr ''RUNNING''), (''_id'', VObjectId 5)]] = example_docs @ [d] \<and>
        map_of d ''_id'' = Some (VObjectId 5) \<and> map_of d ''name'' = Some (VStr ''run'')) \<and>
   validate_experiment_doc example_schema
     (pop_experiment_id (dict_or_empty (Some [(''name'', VStr ''other'')])))
     = Some [(''name'', VStr ''other'')] \<and>
   \<not> has_doc (collection example_store) (VObjectId 5) \<and>
   (\<exists>d. create example_schema (VDate 9) 5 ''run'' (Some [(''name'', VStr ''other'')])
           example_store
         = (Inr (VObjectId 5),
            (ensure_indexes example_store)\<lparr>collection := collection example_store @ [d]\<rparr>) \<and>
        map_of d ''name'' = Some (VStr ''run''))"
proof -
  let ?s' = "\<lparr>collection = example_docs @
           [[(''name'', VStr ''run''), (''start_time'', VDate 9), (''heartbeat'', VDate 9),
             (''status'', VStr ''RUNNING''), (''_id'', VObjectId 5)]],
         index_information = required_indexes, indexes_ensured = True\<rparr>"
  have c: "create example_schema (VDate 9) 5 ''run'' (Some [(''name'', VStr ''other'')])
             example_store = (Inr (VObjectId 5), ?s')"
    by code_simp
  have h: "validate_experiment_doc example_schema
             (pop_experiment_id (dict_or_empty (Some [(''name'', VStr ''other'')])))
             = Some [(''name'', VStr ''other'')] \<and>
           map_of [(''name'', VStr ''other'')] ''_id'' = None \<and>
           \<not> has_doc (collection example_store) (VObjectId 5)"
    by (simp add: example_schema_def pop_experiment_id_def dict_or_empty_def dict_pop_def
        has_doc_def example_store_def example_docs_def)
  have a: "\<exists>d. example_docs @
           [[(''name'', VStr ''run''), (''start_time'', VDate 9), (''heartbeat'', VDate 9),
             (''status'', VStr ''RUNNING''), (''_id'', VObjectId 5)]] = example_docs @ [d] \<and>
        map_of d ''_id'' = Some (VObjectId 5) \<and> map_of d ''name'' = Some (VStr ''run'')"
    using create_stores_name [THEN conjunct1, THEN mp, OF c]
    by (simp add: example_store_def)
  have b: "\<exists>d. create example_schema (VDate 9) 5 ''run'' (Some [(''name'', VStr ''other'')])
           example_store
         = (Inr (VObjectId 5),
            (ensure_indexes example_store)\<lparr>collection := collection example_store @ [d]\<rparr>) \<and>
        map_of d ''name'' = Some (VStr ''run'')"
    by (rule create_stores_name [THEN conjunct2, THEN mp, OF h])
  from a b c h show ?thesis by blast
qed





section \<open>Hard deletion of marked documents\<close>









section \<open>Queries\<close>

lemma set_sort_on [simp]: "set (sort_on ord spec ds) = set ds"
  by (cases spec; cases "snd spec") (simp_all add: sort_on_def)

lemma set_sort_docs [simp]: "set (sort_docs ord sort_by ds) = set ds"
  by (induction sort_by) (simp_all add: sort_docs_def)

lemma descending_sort_on:
  "descending_on ord fld (sort_on ord (fld, DESCENDING) ds)"
proof -
  let ?k = "\<lambda>d. ord (map_of d fld)"
  have "sorted (map ?k (sort_key ?k (rev ds)))"
    by (rule sorted_sort_key)
  then have "sorted_wrt (\<lambda>a b. b \<le> a) (rev (map ?k (sort_key ?k (rev ds))))"
    by (simp add: sorted_wrt_rev)
  then show ?thesis
    by (simp add: descending_on_def sort_on_def rev_map)
qed

lemma descending_drop: "descending_on ord fld ds \<Longrightarrow> descending_on ord fld (drop n ds)"
  by (simp add: descending_on_def drop_map [symmetric] sorted_wrt_drop)

lemma descending_take: "descending_on ord fld ds \<Longrightarrow> descending_on ord fld (take n ds)"
  by (simp add: descending_on_def take_map [symmetric] sorted_wrt_take)

lemma map_of_rename_from_other:
  "k \<noteq> ''_id'' \<Longrightarrow> k \<noteq> ''id'' \<Longrightarrow> map_of (rename_id_from_database d) k = map_of d k"
  by (simp add: rename_id_from_database_def map_of_dict_set map_of_dict_pop
      split: option.splits)

lemma descending_rename:
  "descending_on ord ''heartbeat'' ds \<Longrightarrow>
   descending_on ord ''heartbeat'' (map rename_id_from_database ds)"
  by (simp add: descending_on_def map_of_rename_from_other comp_def)

lemma visible_rename [simp]: "visible (rename_id_from_database d) = visible d"
  by (simp add: visible_def map_of_rename_from_other)

lemma update_entry_mem: "(k, v) \<in> set (AList.update k v al)"
  by (induction al) auto

lemma matches_iff: "matches flt d \<longleftrightarrow> (\<forall>(k, c) \<in> set flt. cond_holds c (map_of d k))"
  by (simp add: matches_def list_all_iff)

lemma matches_not_deleted:
  "matches (dict_set (fst not_deleted) (snd not_deleted) flt) d \<Longrightarrow> visible d"
proof -
  assume m: "matches (dict_set (fst not_deleted) (snd not_deleted) flt) d"
  have "(''deleted'', VDict [(''$ne'', VBool True)])
          \<in> set (dict_set (fst not_deleted) (snd not_deleted) flt)"
    by (simp add: not_deleted_def dict_set_def update_entry_mem)
  with m have "cond_holds (VDict [(''$ne'', VBool True)]) (map_of d ''deleted'')"
    unfolding matches_iff by blast
  then show ?thesis by (simp add: visible_def)
qed


text \<open>
  Claim C7. When the filter validates, iter_docs yields a list of documents. Without
  include_deleted no yielded document has a true \<open>deleted\<close> flag, whatever the filter,
  skip and limit are. When sort_by is not given, the yielded documents are in
  descending order of \<open>heartbeat\<close>. With include_deleted, an empty filter and neither
  skip nor limit, every stored document is yielded, the soft-deleted ones too.
\<close>

theorem iter_docs_visible_sorted:
  assumes v: "validate_experiment_doc S (dict_or_empty flt) = Some v"
  shows "\<exists>ds. iter_docs S ord flt skip limit sort_by include_deleted s = Inr ds \<and>
           (\<not> include_deleted \<longrightarrow> (\<forall>d \<in> set ds. visible d)) \<and>
           (sort_by = None \<longrightarrow> descending_on ord ''heartbeat'' ds) \<and>
           (include_deleted \<and> v = [] \<and> skip = None \<and> limit = None \<longrightarrow>
              set ds = rename_id_from_database ` set (collection s))"
proof -
  define f1 where "f1 = (if \<not> include_deleted
      then dict_set (fst not_deleted) (snd not_deleted) (rename_id_to_database v)
      else rename_id_to_database v)"
  define sb where
    "sb = (case sort_by of None \<Rightarrow> [(''heartbeat'', DESCENDING)] | Some x \<Rightarrow> x)"
  define c0 where "c0 = find_sorted ord f1 sb (collection s)"
  define c1 where
    "c1 = (case skip of None \<Rightarrow> c0 | Some n \<Rightarrow> if n \<noteq> 0 then drop n c0 else c0)"
  define c2 where
    "c2 = (case limit of None \<Rightarrow> c1 | Some n \<Rightarrow> if n \<noteq> 0 then take n c1 else c1)"
  have r: "iter_docs S ord flt skip limit sort_by include_deleted s
           = Inr (map rename_id_from_database c2)"
    unfolding iter_docs_def v option.case Let_def
    unfolding f1_def [symmetric] sb_def [symmetric]
    unfolding c0_def [symmetric]
    unfolding c1_def [symmetric]
    unfolding c2_def [symmetric]
    by (rule refl)
  have s0: "set c0 = {d \<in> set (collection s). matches f1 d}"
    by (simp add: c0_def find_sorted_def)
  have "set c1 \<subseteq> set c0"
    by (auto simp: c1_def split: option.splits dest: in_set_dropD)
  moreover have "set c2 \<subseteq> set c1"
    by (auto simp: c2_def split: option.splits dest: in_set_takeD)
  ultimately have sub: "set c2 \<subseteq> set c0" by blast
  have vis: "\<forall>d \<in> set (map rename_id_from_database c2). visible d" if "\<not> include_deleted"
  proof -
    have "\<forall>d \<in> set c0. visible d"
      using that by (auto simp: s0 f1_def dest: matches_not_deleted)
    with sub show ?thesis by auto
  qed
  have srt: "descending_on ord ''heartbeat'' (map rename_id_from_database c2)"
    if "sort_by = None"
  proof -
    have "c0 = sort_on ord (''heartbeat'', DESCENDING) (filter (matches f1) (collection s))"
      using that by (simp add: c0_def sb_def find_sorted_def sort_docs_def)
    then have "descending_on ord ''heartbeat'' c0"
      by (simp add: descending_sort_on)
    then have "descending_on ord ''heartbeat'' c1"
      by (auto simp: c1_def split: option.splits intro: descending_drop)
    then have "descending_on ord ''heartbeat'' c2"
      by (auto simp: c2_def split: option.splits intro: descending_take)
    then show ?thesis by (rule descending_rename)
  qed
  have all: "set (map rename_id_from_database c2) = rename_id_from_database ` set (collection s)"
    if "include_deleted \<and> v = [] \<and> skip = None \<and> limit = None"
  proof -
    have "f1 = []"
      using that by (simp add: f1_def rename_id_to_database_def)
    then have "set c0 = set (collection s)"
      by (simp add: s0)
    moreover have "c2 = c0"
      using that by (simp add: c2_def c1_def)
    ultimately show ?thesis by simp
  qed
  show ?thesis
    by (rule exI [of _ "map rename_id_from_database c2"]) (use r vis srt all in blast)
qed

theorem iter_docs_visible_sorted_witness:
  "validate_experiment_doc example_schema (dict_or_empty None) = Some [] \<and>
   iter_docs example_schema (\<lambda>v. case v of Some (VDate t) \<Rightarrow> t | _ \<Rightarrow> - 1)
       None None None None False example_store
     = Inr [[(''parent_id'', VObjectId 2), (''heartbeat'', VDate 40), (''id'', VObjectId 4)],
            [(''parent_id'', VObjectId 1), (''heartbeat'', VDate 30), (''id'', VObjectId 2)],
            [(''name'', VStr ''root''), (''heartbeat'', VDate 10), (''id'', VObjectId 1)]] \<and>
   list_all visible
     [[(''parent_id'', VObjectId 2), (''heartbeat'', VDate 40), (''id'', VObjectId 4)],
      [(''parent_id'', VObjectId 1), (''heartbeat'', VDate 30), (''id'', VObjectId 2)],
      [(''name'', VStr ''root''), (''heartbeat'', VDate 10), (''id'', VObjectId 1)]] \<and>
   descending_on (\<lambda>v. case v of Some (VDate t) \<Rightarrow> t | _ \<Rightarrow> - 1) ''heartbeat''
     [[(''parent_id'', VObjectId 2), (''heartbeat'', VDate 40), (''id'', VObjectId 4)],
      [(''parent_id'', VObjectId 1), (''heartbeat'', VDate 30), (''id'', VObjectId 2)],
      [(''name'', VStr ''root''), (''heartbeat'', VDate 10), (''id'', VObjectId 1)]] \<and>
   (\<exists>ds. iter_docs example_schema (\<lambda>v. case v of Some (VDate t) \<Rightarrow> t | _ \<Rightarrow> - 1)
            None None None None True example_store = Inr ds \<and>
         [(''parent_id'', VObjectId 1), (''heartbeat'', VDate 20), (''deleted'', VBool True),
          (''id'', VObjectId 3)] \<in> set ds)"
proof -
  let ?ord = "\<lambda>v. case v of Some (VDate t) \<Rightarrow> t | _ \<Rightarrow> - (1::int)"
  let ?out = "[[(''parent_id'', VObjectId 2), (''heartbeat'', VDate 40), (''id'', VObjectId 4)],
            [(''parent_id'', VObjectId 1), (''heartbeat'', VDate 30), (''id'', VObjectId 2)],
            [(''name'', VStr ''root''), (''heartbeat'', VDate 10), (''id'', VObjectId 1)]]"
  have v: "validate_experiment_doc example_schema (dict_or_empty None) = Some []"
    by (simp add: example_schema_def dict_or_empty_def)
  have c: "iter_docs example_schema ?ord None None None None False example_store = Inr ?out"
    by code_simp
  from iter_docs_visible_sorted [OF v, of ?ord None None None False example_store] c
  have a: "(\<forall>d \<in> set ?out. visible d) \<and> descending_on ?ord ''heartbeat'' ?out"
    by auto
  from iter_docs_visible_sorted [OF v, of ?ord None None None True example_store]
  obtain ds where
    d: "iter_docs example_schema ?ord None None None None True example_store = Inr ds"
      "set ds = rename_id_from_database ` set (collection example_store)"
    by auto
  have "rename_id_from_database
          [(''_id'', VObjectId 3), (''parent_id'', VObjectId 1), (''heartbeat'', VDate 20),
           (''deleted'', VBool True)]
        = [(''parent_id'', VObjectId 1), (''heartbeat'', VDate 20), (''deleted'', VBool True),
           (''id'', VObjectId 3)]"
    by (simp add: rename_id_from_database_def dict_set_def dict_pop_def)
  moreover have "[(''_id'', VObjectId 3), (''parent_id'', VObjectId 1), (''heartbeat'', VDate 20),
           (''deleted'', VBool True)] \<in> set (collection example_store)"
    by (simp add: example_store_def example_docs_def)
  ultimately have "[(''parent_id'', VObjectId 1), (''heartbeat'', VDate 20),
      (''deleted'', VBool True), (''id'', VObjectId 3)] \<in> set ds"
    unfolding d(2) by (metis imageI)
  with d(1) v c a show ?thesis
    by (auto simp only: list_all_iff)
qed

section \<open>Cascading soft deletion\<close>

lemma mark_deleted_Nil [simp]: "mark_deleted A [] = []"
  by (simp add: mark_deleted_def)

lemma mark_deleted_Cons [simp]:
  "mark_deleted A (d # ds) =
     (if map_of d ''_id'' \<in> Some ` A then dict_set ''deleted'' (VBool True) d else d)
       # mark_deleted A ds"
  by (simp add: mark_deleted_def)

lemma mark_deleted_field:
  "k \<noteq> ''deleted'' \<Longrightarrow>
   map (\<lambda>d. map_of d k) (mark_deleted A coll) = map (\<lambda>d. map_of d k) coll"
  by (induction coll) (simp_all add: map_of_dict_set)

lemma mark_deleted_keys:
  "map (\<lambda>d. map_of d ''_id'') (mark_deleted A coll) = map (\<lambda>d. map_of d ''_id'') coll"
  by (simp add: mark_deleted_field)




lemma has_doc_keys: "has_doc coll i \<longleftrightarrow> Some i \<in> set (map (\<lambda>d. map_of d ''_id'') coll)"
  by (auto simp: has_doc_iff intro: rev_image_eqI)

lemma has_doc_mark_deleted [simp]: "has_doc (mark_deleted A coll) i = has_doc coll i"
  by (simp only: has_doc_keys mark_deleted_keys)

lemma has_ObjectId_key:
  "(case k of Some (VObjectId _) \<Rightarrow> True | _ \<Rightarrow> False) \<longleftrightarrow> (\<exists>j. k = Some (VObjectId j))"
proof (cases k)
  case None
  then show ?thesis by simp
next
  case (Some v)
  then show ?thesis by (cases v) simp_all
qed

lemma wf_coll_keys:
  "wf_coll coll \<longleftrightarrow>
     (\<forall>k \<in> set (map (\<lambda>d. map_of d ''_id'') coll). \<exists>j. k = Some (VObjectId j)) \<and>
     distinct (map (\<lambda>d. map_of d ''_id'') coll)"
  by (simp add: wf_coll_def list_all_iff has_ObjectId_key)

lemma wf_coll_mark_deleted [simp]: "wf_coll (mark_deleted A coll) = wf_coll coll"
  by (simp only: wf_coll_keys mark_deleted_keys)

lemma children_mark_deleted [simp]: "children (mark_deleted A coll) i = children coll i"
  by (induction coll)
    (simp_all add: children_def map_of_dict_set split: option.splits)




















lemma mark_deleted_empty [simp]: "mark_deleted {} coll = coll"
  by (induction coll) simp_all





end
